theory Spec2Isabelle
  imports Main "HOL-Library.Word" "HOL-Library.Code_Target_Numeral"
begin

section \<open>The menu editor of \<open>Practica 3/script.js\<close>\<close>

text \<open>
  The program keeps one global forest \<open>menuData\<close> of menu items and changes it from a
  form (create, edit) and from a delete button. The model follows the script function by
  function. Conventions of the embedding:
  \<^item> an item object is a value of the datatype \<open>item\<close>; the property \<open>submenu\<close> may be
    missing (\<open>None\<close>) or hold an array (\<open>Some\<close>, possibly of the empty list), and so may
    \<open>icon\<close>;
  \<^item> ids are the integers of the data model, as \<open>int\<close>; they are Numbers in the script,
    so the one sum it computes, \<open>max + 1\<close> in \<open>nextId\<close>, is rounded to the nearest Number
    (\<open>toNumber\<close>); comparisons of Numbers are exact;
  \<^item> a string is the list of its 16-bit code units; \<open>ascii\<close> writes one from a literal;
  \<^item> the forest is a tree without sharing (it comes from \<open>JSON.parse\<close> and from fresh
    object literals), so writing through the object that \<open>findById\<close> returns is modelled
    as replacing the first match in the order of the search (\<open>mutate\<close>);
  \<^item> \<open>showMessage\<close> appends to a log of its calls; the message box shows the last one;
  \<^item> \<open>saveToLocalStorage\<close>, \<open>renderMenu\<close> and \<open>resetForm\<close> only read the forest and are
    left out; the text of \<open>updateJsonView\<close> and of the export is \<open>serialize\<close> below.
\<close>

subsection \<open>Data\<close>

type_synonym code_unit = "16 word"

type_synonym jsstring = "code_unit list"

definition ascii :: "string \<Rightarrow> jsstring" where
  "ascii s = map of_char s"

datatype item =
  Item (item_id: int) (nombre: jsstring) (enlace: jsstring) (icon: "jsstring option")
    (submenu: "item list option")

datatype text_shown =
    NombreObligatorio
  | EnlaceInvalido
  | EditarNoEncontrado
  | Actualizado
  | ParentNoEncontrado
  | NuevaOpcion
  | Eliminado

record state =
  menuData :: "item list"
  messages :: "(text_shown \<times> bool) list"

text \<open>
  The values of the form's inputs. The two id inputs hold either the empty string
  (\<open>None\<close>) or the decimal text of an integer (\<open>Some\<close> of what \<open>Number\<close> gives for it).
\<close>

record form =
  editingIdInput :: "int option"
  nombreInput :: jsstring
  enlaceInput :: jsstring
  iconoInput :: jsstring
  parentIdInput :: "int option"

subsection \<open>Strings: \<open>trim\<close> and the pattern of \<open>validateUrl\<close>\<close>

text \<open>
  The code units that \<open>trim\<close> strips: the white space and the line terminators of the
  language (TAB, LF, VT, FF, CR, the space separators and the byte order mark).
\<close>

definition whiteSpace :: "code_unit \<Rightarrow> bool" where
  "whiteSpace c =
     (c = 0x09 \<or> c = 0x0A \<or> c = 0x0B \<or> c = 0x0C \<or> c = 0x0D \<or> c = 0x20 \<or> c = 0xA0 \<or>
      c = 0x1680 \<or> (0x2000 \<le> c \<and> c \<le> 0x200A) \<or> c = 0x2028 \<or> c = 0x2029 \<or>
      c = 0x202F \<or> c = 0x205F \<or> c = 0x3000 \<or> c = 0xFEFF)"

definition trim :: "jsstring \<Rightarrow> jsstring" where
  "trim s = rev (dropWhile whiteSpace (rev (dropWhile whiteSpace s)))"

text \<open>The code units that \<open>.\<close> does not match: LF, CR, U+2028 and U+2029.\<close>

definition lineTerminator :: "code_unit \<Rightarrow> bool" where
  "lineTerminator c = (c = 0x0A \<or> c = 0x0D \<or> c = 0x2028 \<or> c = 0x2029)"

text \<open>
  Matching under the flag \<open>i\<close> compares canonical forms: the upper case of a code unit,
  except that a code unit from 128 on is never mapped below 128. The pattern has ASCII
  characters only, so what matters is which code units are canonically one of its
  letters: the letter itself in either case. The model maps \<open>a\<close> to \<open>z\<close> to upper case
  and leaves every other code unit as it is.
\<close>

definition canonicalize :: "code_unit \<Rightarrow> code_unit" where
  "canonicalize c = (if 0x61 \<le> c \<and> c \<le> 0x7A then c - 0x20 else c)"

text \<open>\<open>literal p s\<close> matches the pattern characters \<open>p\<close> at the start of \<open>s\<close> and gives the rest.\<close>

fun literal :: "jsstring \<Rightarrow> jsstring \<Rightarrow> jsstring option" where
  "literal [] s = Some s"
| "literal (p # ps) [] = None"
| "literal (p # ps) (c # s) =
     (if canonicalize c = canonicalize p then literal ps s else None)"

text \<open>\<open>.+\<close>: at least one character that is not a line terminator (more are optional).\<close>

definition dotPlus :: "jsstring \<Rightarrow> bool" where
  "dotPlus s = (case s of [] \<Rightarrow> False | c # _ \<Rightarrow> \<not> lineTerminator c)"

definition colonSlashSlash_dotPlus :: "jsstring \<Rightarrow> bool" where
  "colonSlashSlash_dotPlus s =
     (case literal (ascii ''://'') s of None \<Rightarrow> False | Some r \<Rightarrow> dotPlus r)"

text \<open>\<open>/^(\/|https?:\/\/).+/i\<close>, tried at the start of the string, alternatives in order.\<close>

definition pattern_test :: "jsstring \<Rightarrow> bool" where
  "pattern_test url =
     ((case literal (ascii ''/'') url of None \<Rightarrow> False | Some r \<Rightarrow> dotPlus r) \<or>
      (case literal (ascii ''http'') url of
         None \<Rightarrow> False
       | Some r \<Rightarrow>
           (case literal (ascii ''s'') r of
              None \<Rightarrow> False
            | Some r1 \<Rightarrow> colonSlashSlash_dotPlus r1) \<or>
           colonSlashSlash_dotPlus r))"

definition validateUrl :: "jsstring \<Rightarrow> bool" where
  "validateUrl url = (if url = [] then False else pattern_test url)"

subsection \<open>Numbers\<close>

text \<open>
  A Number has a significand of 53 bits. \<open>nearest m\<close> is the Number nearest to the natural
  number \<open>m\<close>, a tie going to the even significand; \<open>bits_beyond m\<close> is how many bits \<open>m\<close>
  has beyond 53. Magnitudes from \<open>2 ^ 1024\<close> on, which have no finite Number, are outside
  the model: adding 1 to a Number never reaches them. The natural numbers and the integers
  are computed with the integers of the target language, so that these functions evaluate
  at arguments of the size of \<open>2 ^ 53\<close>.
\<close>

function bits_beyond :: "nat \<Rightarrow> nat" where
  "bits_beyond m = (if m < 2 ^ 53 then 0 else Suc (bits_beyond (m div 2)))"
  by pat_completeness auto
termination
  by (relation "measure id") auto

declare bits_beyond.simps [simp del]

definition nearest :: "nat \<Rightarrow> nat" where
  "nearest m =
     (let e = bits_beyond m; q = m div 2 ^ e; r = m mod 2 ^ e
      in if 2 * r > 2 ^ e \<or> (2 * r = 2 ^ e \<and> odd q) then (q + 1) * 2 ^ e else q * 2 ^ e)"

definition toNumber :: "int \<Rightarrow> int" where
  "toNumber x = (if x < 0 then - int (nearest (nat (- x))) else int (nearest (nat x)))"

subsection \<open>Searching, allocating ids, deleting\<close>

fun search :: "int \<Rightarrow> item list \<Rightarrow> item option" where
  "search i [] = None"
| "search i (Item j n e c sub # arr) =
     (if j = i then Some (Item j n e c sub)
      else (case sub of
              None \<Rightarrow> search i arr
            | Some s \<Rightarrow> (case search i s of Some r \<Rightarrow> Some r | None \<Rightarrow> search i arr)))"

definition findById :: "int \<Rightarrow> item list \<Rightarrow> item option" where
  "findById i md = search i md"

text \<open>\<open>check\<close> threads the variable \<open>max\<close> of \<open>nextId\<close> through the traversal.\<close>

fun check :: "item \<Rightarrow> int \<Rightarrow> int" and forEach_check :: "item list \<Rightarrow> int \<Rightarrow> int" where
  "check (Item j n e c sub) mx =
     (let mx1 = (if j \<noteq> 0 \<and> j > mx then j else mx)
      in (case sub of
            None \<Rightarrow> mx1
          | Some s \<Rightarrow> if length s \<noteq> 0 then forEach_check s mx1 else mx1))"
| "forEach_check [] mx = mx"
| "forEach_check (it # arr) mx = forEach_check arr (check it mx)"

text \<open>\<open>return max + 1\<close>: the sum of two Numbers is the Number nearest to the exact sum.\<close>

definition nextId :: "item list \<Rightarrow> int" where
  "nextId md = toNumber (forEach_check md 0 + 1)"

fun filterOut :: "int \<Rightarrow> item list \<Rightarrow> item list" where
  "filterOut i [] = []"
| "filterOut i (Item j n e c sub # arr) =
     (if j = i then filterOut i arr
      else Item j n e c (case sub of None \<Rightarrow> None | Some s \<Rightarrow> Some (filterOut i s))
             # filterOut i arr)"

definition showMessage :: "text_shown \<Rightarrow> bool \<Rightarrow> state \<Rightarrow> state" where
  "showMessage msg isError st = st\<lparr>messages := messages st @ [(msg, isError)]\<rparr>"

text \<open>\<open>deleteItem\<close>; \<open>confirmed\<close> is the answer of the user to the \<open>confirm\<close> dialog.\<close>

definition deleteItem :: "bool \<Rightarrow> int \<Rightarrow> state \<Rightarrow> state" where
  "deleteItem confirmed i st =
     (if \<not> confirmed then st
      else showMessage Eliminado False (st\<lparr>menuData := filterOut i (menuData st)\<rparr>))"

subsection \<open>Writing through a found item\<close>

text \<open>
  \<open>mutate i f arr\<close> replaces the item that \<open>search i arr\<close> returns by \<open>f\<close> of it, in place,
  and is \<open>None\<close> when the search finds nothing.
\<close>

fun mutate :: "int \<Rightarrow> (item \<Rightarrow> item) \<Rightarrow> item list \<Rightarrow> item list option" where
  "mutate i f [] = None"
| "mutate i f (Item j n e c sub # arr) =
     (if j = i then Some (f (Item j n e c sub) # arr)
      else (case sub of
              None \<Rightarrow> map_option ((#) (Item j n e c None)) (mutate i f arr)
            | Some s \<Rightarrow>
                (case mutate i f s of
                   Some s' \<Rightarrow> Some (Item j n e c (Some s') # arr)
                 | None \<Rightarrow> map_option ((#) (Item j n e c (Some s))) (mutate i f arr))))"

text \<open>\<open>item.nombre = nombre; item.enlace = enlace; item.icon = icono || ""\<close>\<close>

definition assign_fields :: "jsstring \<Rightarrow> jsstring \<Rightarrow> jsstring \<Rightarrow> item \<Rightarrow> item" where
  "assign_fields n e c it = Item (item_id it) n e (Some c) (submenu it)"

text \<open>\<open>parent.submenu = parent.submenu || []; parent.submenu.push(newItem)\<close>\<close>

definition push_submenu :: "item \<Rightarrow> item \<Rightarrow> item" where
  "push_submenu newItem parent =
     Item (item_id parent) (nombre parent) (enlace parent) (icon parent)
       (Some ((case submenu parent of None \<Rightarrow> [] | Some s \<Rightarrow> s) @ [newItem]))"

subsection \<open>The submit handler of the form\<close>

definition update_branch ::
  "int \<Rightarrow> jsstring \<Rightarrow> jsstring \<Rightarrow> jsstring \<Rightarrow> state \<Rightarrow> state" where
  "update_branch editingId n e c st =
     (case mutate editingId (assign_fields n e c) (menuData st) of
        None \<Rightarrow> showMessage EditarNoEncontrado True st
      | Some md \<Rightarrow> showMessage Actualizado False (st\<lparr>menuData := md\<rparr>))"

definition push_root :: "item \<Rightarrow> state \<Rightarrow> state" where
  "push_root newItem st = st\<lparr>menuData := menuData st @ [newItem]\<rparr>"

definition create_branch ::
  "int option \<Rightarrow> jsstring \<Rightarrow> jsstring \<Rightarrow> jsstring \<Rightarrow> state \<Rightarrow> state" where
  "create_branch parentId n e c st =
     (let newId = nextId (menuData st);
          newItem = Item newId n e (Some c) None
      in showMessage NuevaOpcion False
           (case parentId of
              None \<Rightarrow> push_root newItem st
            | Some p \<Rightarrow>
                if p \<noteq> 0 then
                  (case mutate p (push_submenu newItem) (menuData st) of
                     None \<Rightarrow> push_root newItem (showMessage ParentNoEncontrado False st)
                   | Some md \<Rightarrow> st\<lparr>menuData := md\<rparr>)
                else push_root newItem st))"

definition submit :: "form \<Rightarrow> state \<Rightarrow> state" where
  "submit f st =
     (let editingId = editingIdInput f;
          n = trim (nombreInput f);
          e = trim (enlaceInput f);
          c = trim (iconoInput f);
          parentId = parentIdInput f
      in if n = [] then showMessage NombreObligatorio True st
         else if \<not> validateUrl e then showMessage EnlaceInvalido True st
         else (case editingId of
                 None \<Rightarrow> create_branch parentId n e c st
               | Some i \<Rightarrow>
                   if i \<noteq> 0 then update_branch i n e c st
                   else create_branch parentId n e c st))"

subsection \<open>Listing a forest\<close>

text \<open>The ids of a forest in the order of the search, at every depth.\<close>

fun ids :: "item list \<Rightarrow> int list" where
  "ids [] = []"
| "ids (Item j n e c sub # arr) = j # (case sub of None \<Rightarrow> [] | Some s \<Rightarrow> ids s) @ ids arr"

text \<open>
  Every entry of a forest in the same order, with the ids of its ancestors (outermost
  first), its own fields, and whether it has the property \<open>submenu\<close>.
\<close>

datatype entry =
  Entry (ancestors: "int list") (entry_id: int) (label: jsstring) (href: jsstring)
    (entry_icon: "jsstring option") (has_submenu: bool)

fun entries :: "int list \<Rightarrow> item list \<Rightarrow> entry list" where
  "entries anc [] = []"
| "entries anc (Item j n e c sub # arr) =
     Entry anc j n e c (sub \<noteq> None)
       # (case sub of None \<Rightarrow> [] | Some s \<Rightarrow> entries (anc @ [j]) s) @ entries anc arr"

text \<open>The children sequence of an item: empty when the property \<open>submenu\<close> is missing.\<close>

definition children :: "item \<Rightarrow> item list" where
  "children it = (case submenu it of None \<Rightarrow> [] | Some s \<Rightarrow> s)"

text \<open>The position of the first entry with id \<open>i\<close> (the length of the list when there is none).\<close>

definition first_index :: "int \<Rightarrow> entry list \<Rightarrow> nat" where
  "first_index i es = length (takeWhile (\<lambda>r. entry_id r \<noteq> i) es)"

text \<open>An entry with new label, href and icon; ancestors, id and \<open>has_submenu\<close> as before.\<close>

definition overwrite :: "jsstring \<Rightarrow> jsstring \<Rightarrow> jsstring \<Rightarrow> entry \<Rightarrow> entry" where
  "overwrite n e c r = Entry (ancestors r) (entry_id r) n e (Some c) (has_submenu r)"

text \<open>An entry that has the property \<open>submenu\<close>, otherwise as it was.\<close>

definition flagged :: "entry \<Rightarrow> entry" where
  "flagged r = Entry (ancestors r) (entry_id r) (label r) (href r) (entry_icon r) True"

text \<open>What the message box shows: the text of the last call of \<open>showMessage\<close>.\<close>

definition messageBox :: "state \<Rightarrow> (text_shown \<times> bool) option" where
  "messageBox st = (case messages st of [] \<Rightarrow> None | m # ms \<Rightarrow> Some (last (m # ms)))"

subsection \<open>What the specification says, for comparison\<close>

text \<open>
  \<open>validateHref\<close> in the words of the specification: a non-empty string that matches
  \<open>^(/|https?://)\<close>, the case of the letters ignored.
\<close>

definition spec_validateHref :: "jsstring \<Rightarrow> bool" where
  "spec_validateHref s =
     (s \<noteq> [] \<and>
      (literal (ascii ''/'') s \<noteq> None \<or> literal (ascii ''http://'') s \<noteq> None \<or>
       literal (ascii ''https://'') s \<noteq> None))"

text \<open>
  \<open>nextId\<close> in the words of the specification: the maximum id found anywhere in the
  forest plus one, and 1 for the empty forest.
\<close>

definition spec_nextId :: "item list \<Rightarrow> int" where
  "spec_nextId md = (if md = [] then 1 else Max (set (ids md)) + 1)"

subsection \<open>The text of a forest\<close>

text \<open>
  \<open>updateJsonView\<close> and the export call \<open>JSON.stringify({ menu: menuData }, null, 2)\<close>, and
  \<open>cargarMenu\<close> reads such a document back with \<open>JSON.parse\<close> and \<open>data.menu || []\<close>. The two
  functions belong to the runtime and have no source in the script.

  Modelled from the spec: \<open>serialize(forest)\<close> "produces a pretty-printed textual form of
  { menu: forest }" and the export is a JSON document that is read back; what is missing
  is \<open>JSON.stringify\<close> and \<open>JSON.parse\<close>. The definitions below follow their documentation
  in the language standard. A value is \<open>null\<close>, a boolean, a Number (an integer here, as
  the ids are), a string, an array, or an object as the list of its properties in their own
  order.
\<close>

datatype json =
    JNull
  | JBool bool
  | JNumber int
  | JString jsstring
  | JArray "json list"
  | JObject "(jsstring \<times> json) list"

text \<open>
  Modelled from the spec: the string quoting of \<open>JSON.stringify\<close> (QuoteJSONString), missing
  from the script. A quotation mark, a reverse solidus and the control characters with a
  short form are escaped by a reverse solidus; any other code unit below 32 and any
  surrogate that is not half of a pair becomes a reverse solidus, the letter u and four
  lower-case hexadecimal digits; every other code unit stands for itself.
\<close>

definition hexDigit :: "nat \<Rightarrow> code_unit" where
  "hexDigit d = (if d < 10 then 0x30 + of_nat d else 0x57 + of_nat d)"

definition unicodeEscape :: "code_unit \<Rightarrow> jsstring" where
  "unicodeEscape c =
     (let n = unat c
      in [0x5C, 0x75, hexDigit (n div 4096), hexDigit (n div 256 mod 16),
          hexDigit (n div 16 mod 16), hexDigit (n mod 16)])"

definition highSurrogate :: "code_unit \<Rightarrow> bool" where
  "highSurrogate c = (0xD800 \<le> c \<and> c \<le> 0xDBFF)"

definition lowSurrogate :: "code_unit \<Rightarrow> bool" where
  "lowSurrogate c = (0xDC00 \<le> c \<and> c \<le> 0xDFFF)"

definition quoteUnit :: "code_unit \<Rightarrow> jsstring" where
  "quoteUnit c =
     (if c = 0x08 then [0x5C, 0x62]
      else if c = 0x09 then [0x5C, 0x74]
      else if c = 0x0A then [0x5C, 0x6E]
      else if c = 0x0C then [0x5C, 0x66]
      else if c = 0x0D then [0x5C, 0x72]
      else if c = 0x22 then [0x5C, 0x22]
      else if c = 0x5C then [0x5C, 0x5C]
      else if c < 0x20 \<or> highSurrogate c \<or> lowSurrogate c then unicodeEscape c
      else [c])"

fun quoteBody :: "jsstring \<Rightarrow> jsstring" where
  "quoteBody [] = []"
| "quoteBody [c] = quoteUnit c"
| "quoteBody (c # d # cs) =
     (if highSurrogate c \<and> lowSurrogate d then c # d # quoteBody cs
      else quoteUnit c @ quoteBody (d # cs))"

definition quoteJSONString :: "jsstring \<Rightarrow> jsstring" where
  "quoteJSONString s = 0x22 # quoteBody s @ [0x22]"

text \<open>
  Modelled from the spec: \<open>JSON.stringify\<close> with the indent 2 (SerializeJSONProperty,
  SerializeJSONObject, SerializeJSONArray), missing from the script. \<open>ind\<close> is the depth;
  the members of a non-empty array or object stand on lines of their own, two spaces
  deeper, separated by commas, and a key is followed by a colon and one space. \<open>num\<close> is
  the text of a Number (Number::toString): it is a parameter, and the round trip assumes
  of it only what the standard guarantees for every Number, that the text reads back as
  the same Number.
\<close>

definition indentation :: "nat \<Rightarrow> jsstring" where
  "indentation n = 0x0A # replicate (2 * n) 0x20"

fun stringify :: "(int \<Rightarrow> jsstring) \<Rightarrow> nat \<Rightarrow> json \<Rightarrow> jsstring"
  and elements :: "(int \<Rightarrow> jsstring) \<Rightarrow> nat \<Rightarrow> json list \<Rightarrow> jsstring"
  and properties :: "(int \<Rightarrow> jsstring) \<Rightarrow> nat \<Rightarrow> (jsstring \<times> json) list \<Rightarrow> jsstring" where
  "stringify num ind JNull = ascii ''null''"
| "stringify num ind (JBool b) = (if b then ascii ''true'' else ascii ''false'')"
| "stringify num ind (JNumber k) = num k"
| "stringify num ind (JString s) = quoteJSONString s"
| "stringify num ind (JArray vs) =
     (if vs = [] then ascii ''[]''
      else 0x5B # indentation (Suc ind) @ elements num (Suc ind) vs @ indentation ind @ [0x5D])"
| "stringify num ind (JObject ps) =
     (if ps = [] then ascii ''{}''
      else 0x7B # indentation (Suc ind) @ properties num (Suc ind) ps @ indentation ind @ [0x7D])"
| "elements num ind [] = []"
| "elements num ind [v] = stringify num ind v"
| "elements num ind (v # w # vs) =
     stringify num ind v @ 0x2C # indentation ind @ elements num ind (w # vs)"
| "properties num ind [] = []"
| "properties num ind [(k, v)] = quoteJSONString k @ [0x3A, 0x20] @ stringify num ind v"
| "properties num ind ((k, v) # p # ps) =
     quoteJSONString k @ [0x3A, 0x20] @ stringify num ind v @
     0x2C # indentation ind @ properties num ind (p # ps)"















text \<open>
  An item as the runtime holds it: an object with the properties \<open>id\<close>, \<open>nombre\<close>,
  \<open>enlace\<close>, then \<open>icon\<close> and \<open>submenu\<close> when it has them (the order in which the create
  path and the later push write them). \<open>value_item\<close> goes back by property access, so it
  does not depend on the order; \<open>get\<close> is the access to a property (of two properties with
  one key in a text the later one counts), and \<open>get_submenu\<close> is the access to \<open>submenu\<close>
  read as a forest.
\<close>

fun item_value :: "item \<Rightarrow> json" where
  "item_value (Item j n e c sub) =
     JObject
       ([(ascii ''id'', JNumber j), (ascii ''nombre'', JString n), (ascii ''enlace'', JString e)] @
        (case c of None \<Rightarrow> [] | Some s \<Rightarrow> [(ascii ''icon'', JString s)]) @
        (case sub of None \<Rightarrow> [] | Some s \<Rightarrow> [(ascii ''submenu'', JArray (map item_value s))]))"

fun get :: "jsstring \<Rightarrow> (jsstring \<times> json) list \<Rightarrow> json option" where
  "get k [] = None"
| "get k ((k', v) # ps) =
     (case get k ps of Some u \<Rightarrow> Some u | None \<Rightarrow> if k' = k then Some v else None)"

datatype 'a property = Absent | Malformed | Present 'a

fun value_item :: "json \<Rightarrow> item option"
  and get_submenu :: "(jsstring \<times> json) list \<Rightarrow> item list property"
  and value_items :: "json list \<Rightarrow> item list option" where
  "value_item (JObject ps) =
     (case get (ascii ''id'') ps of
        Some (JNumber j) \<Rightarrow>
          (case get (ascii ''nombre'') ps of
             Some (JString n) \<Rightarrow>
               (case get (ascii ''enlace'') ps of
                  Some (JString e) \<Rightarrow>
                    (case get_submenu ps of
                       Malformed \<Rightarrow> None
                     | Absent \<Rightarrow>
                         (case get (ascii ''icon'') ps of
                            None \<Rightarrow> Some (Item j n e None None)
                          | Some (JString c) \<Rightarrow> Some (Item j n e (Some c) None)
                          | Some _ \<Rightarrow> None)
                     | Present s \<Rightarrow>
                         (case get (ascii ''icon'') ps of
                            None \<Rightarrow> Some (Item j n e None (Some s))
                          | Some (JString c) \<Rightarrow> Some (Item j n e (Some c) (Some s))
                          | Some _ \<Rightarrow> None))
                | _ \<Rightarrow> None)
           | _ \<Rightarrow> None)
      | _ \<Rightarrow> None)"
| "value_item JNull = None"
| "value_item (JBool b) = None"
| "value_item (JNumber k) = None"
| "value_item (JString s) = None"
| "value_item (JArray vs) = None"
| "get_submenu [] = Absent"
| "get_submenu ((k, v) # ps) =
     (case get_submenu ps of
        Absent \<Rightarrow>
          if k = ascii ''submenu'' then
            (case v of
               JArray vs \<Rightarrow> (case value_items vs of None \<Rightarrow> Malformed | Some s \<Rightarrow> Present s)
             | _ \<Rightarrow> Malformed)
          else Absent
      | r \<Rightarrow> r)"
| "value_items [] = Some []"
| "value_items (v # vs) =
     (case value_item v of
        None \<Rightarrow> None
      | Some it \<Rightarrow> (case value_items vs of None \<Rightarrow> None | Some its \<Rightarrow> Some (it # its)))"


definition serialize :: "(int \<Rightarrow> jsstring) \<Rightarrow> item list \<Rightarrow> jsstring" where
  "serialize wr md = stringify wr 0 (JObject [(ascii ''menu'', JArray (map item_value md))])"










section \<open>Properties of the search and of the traversals\<close>

lemma search_None_iff: "search i arr = None \<longleftrightarrow> i \<notin> set (ids arr)"
  by (induction i arr rule: search.induct) (auto split: option.splits)

lemma search_Some_id: "search i arr = Some it \<Longrightarrow> item_id it = i"
  by (induction i arr rule: search.induct) (auto split: option.splits if_splits)

lemma search_append:
  "search i (xs @ ys) = (case search i xs of Some r \<Rightarrow> Some r | None \<Rightarrow> search i ys)"
  by (induction i xs rule: search.induct) (auto split: option.splits)

lemma ids_filterOut: "i \<notin> set (ids (filterOut i arr))"
  by (induction i arr rule: filterOut.induct) (auto split: option.splits)

lemma filterOut_absent: "i \<notin> set (ids arr) \<Longrightarrow> filterOut i arr = arr"
  by (induction i arr rule: filterOut.induct) (auto split: option.splits)

lemma entries_ancestors: "r \<in> set (entries anc arr) \<Longrightarrow> set anc \<subseteq> set (ancestors r)"
  by (induction anc arr rule: entries.induct) (auto split: option.splits)

lemma entries_ids: "map entry_id (entries anc arr) = ids arr"
  by (induction anc arr rule: entries.induct) (auto split: option.splits)

lemma entries_filterOut:
  "i \<notin> set anc \<Longrightarrow>
   entries anc (filterOut i arr) =
     filter (\<lambda>r. entry_id r \<noteq> i \<and> i \<notin> set (ancestors r)) (entries anc arr)"
proof (induction i arr arbitrary: anc rule: filterOut.induct)
  case (1 i)
  then show ?case by simp
next
  case (2 i j n e c sub arr)
  show ?case
  proof (cases "j = i")
    case True
    have "filter (\<lambda>r. entry_id r \<noteq> i \<and> i \<notin> set (ancestors r)) (entries (anc @ [i]) s) = []" for s
      using entries_ancestors [of _ "anc @ [i]" s] by (auto simp: filter_empty_conv)
    with True 2 show ?thesis by (auto split: option.splits)
  next
    case False
    with 2 show ?thesis by (auto split: option.splits)
  qed
qed

lemma mutate_None_iff: "mutate i f arr = None \<longleftrightarrow> search i arr = None"
  by (induction i f arr rule: mutate.induct) (auto split: option.splits)

lemma mutate_Some_search: "mutate i f arr = Some arr' \<Longrightarrow> \<exists>it. search i arr = Some it"
  using mutate_None_iff [of i f arr] by (cases "search i arr") auto

lemma search_mutate:
  "search i arr = Some it \<Longrightarrow> item_id (f it) = i \<Longrightarrow>
   \<exists>arr'. mutate i f arr = Some arr' \<and> search i arr' = Some (f it)"
proof (induction i f arr rule: mutate.induct)
  case (1 i f)
  then show ?case by simp
next
  case (2 i f j n e c sub arr)
  show ?case
  proof (cases "j = i")
    case True
    with 2 show ?thesis by (cases "f (Item j n e c sub)") auto
  next
    case neq: False
    show ?thesis
    proof (cases sub)
      case None
      with neq 2 show ?thesis by auto
    next
      case (Some s)
      show ?thesis
      proof (cases "search i s")
        case None
        then have m: "mutate i f s = None" by (simp add: mutate_None_iff)
        from None Some neq 2 show ?thesis by (auto simp: m)
      next
        case found: (Some r)
        with Some neq 2 have "r = it" by simp
        with found Some neq 2 show ?thesis by auto
      qed
    qed
  qed
qed

lemma ids_Cons: "ids (it # arr) = ids [it] @ ids arr"
  by (cases it) simp

lemma fold_max_ge: "(m::int) \<le> fold max xs m"
proof (induction xs arbitrary: m)
  case Nil
  then show ?case by simp
next
  case (Cons a xs)
  have "m \<le> max a m" by simp
  also have "\<dots> \<le> fold max xs (max a m)" by (rule Cons.IH)
  finally show ?case by simp
qed

lemma check_fold:
  "0 \<le> mx \<Longrightarrow> check it mx = fold max (ids [it]) mx"
  "0 \<le> mx \<Longrightarrow> forEach_check arr mx = fold max (ids arr) mx"
proof (induction it mx and arr mx rule: check_forEach_check.induct)
  case (1 j n e c sub mx)
  have m: "(if j \<noteq> 0 \<and> j > mx then j else mx) = max j mx"
    using 1(2) by auto
  show ?case
  proof (cases sub)
    case None
    then show ?thesis by (simp add: m)
  next
    case (Some s)
    show ?thesis
    proof (cases "s = []")
      case True
      with Some show ?thesis by (simp add: m)
    next
      case False
      have "0 \<le> max j mx" using 1(2) by simp
      with 1(1) [OF refl Some] False m have "forEach_check s (max j mx) = fold max (ids s) (max j mx)"
        by simp
      with Some False show ?thesis by (simp add: m)
    qed
  qed
next
  case (2 mx)
  then show ?case by simp
next
  case (3 it arr mx)
  have c: "check it mx = fold max (ids [it]) mx" using 3 by simp
  have "0 \<le> check it mx" unfolding c using fold_max_ge [of mx "ids [it]"] 3(3) by linarith
  with 3 c show ?case by (simp add: ids_Cons [of it arr])
qed

lemma fold_max_Max: "fold max xs (m::int) = Max (insert m (set xs))"
  using Max.set_eq_fold [of m xs] by simp

lemma max_seen: "forEach_check md 0 = Max (insert 0 (set (ids md)))"
  by (simp add: check_fold(2) fold_max_Max)

lemma bits_beyond_small: "m < 2 ^ 53 \<Longrightarrow> bits_beyond m = 0"
  by (simp add: bits_beyond.simps [of m])

lemma bits_beyond_next: "2 ^ 53 \<le> m \<Longrightarrow> m < 2 ^ 54 \<Longrightarrow> bits_beyond m = 1"
  by (simp add: bits_beyond.simps [of m] bits_beyond_small)

lemma nearest_small: "m < 2 ^ 53 \<Longrightarrow> nearest m = m"
  by (simp add: nearest_def bits_beyond_small)

lemma nearest_next:
  "2 ^ 53 \<le> m \<Longrightarrow> m < 2 ^ 54 \<Longrightarrow>
   nearest m = (if odd m \<and> odd (m div 2) then (m div 2 + 1) * 2 else (m div 2) * 2)"
  by (auto simp: nearest_def bits_beyond_next Let_def odd_iff_mod_2_eq_one)

lemma toNumber_small: "0 \<le> x \<Longrightarrow> x < 2 ^ 53 \<Longrightarrow> toNumber x = x"
proof -
  assume x: "0 \<le> x" "x < 2 ^ 53"
  then have "nat x < 2 ^ 53" by (simp add: nat_less_iff)
  with x show ?thesis by (simp add: toNumber_def nearest_small)
qed

text \<open>While every id is below \<open>2 ^ 53 - 1\<close>, the sum is exact and the id is new.\<close>

lemma nextId_Max:
  assumes "\<forall>j \<in> set (ids md). j < 2 ^ 53 - 1"
  shows "nextId md = Max (insert 0 (set (ids md))) + 1"
proof -
  let ?M = "Max (insert 0 (set (ids md)))"
  have "?M \<in> insert 0 (set (ids md))" by (rule Max_in) auto
  with assms have "?M < 2 ^ 53 - 1" by auto
  moreover have "0 \<le> ?M" by simp
  ultimately have "toNumber (?M + 1) = ?M + 1" by (intro toNumber_small) auto
  then show ?thesis by (simp add: nextId_def max_seen)
qed

lemma nextId_fresh:
  assumes "\<forall>j \<in> set (ids md). j < 2 ^ 53 - 1"
  shows "search (nextId md) md = None"
proof -
  have "j < nextId md" if "j \<in> set (ids md)" for j
  proof -
    have "j \<le> Max (insert 0 (set (ids md)))" using that by (intro Max_ge) auto
    then show ?thesis by (simp add: nextId_Max [OF assms])
  qed
  then have "nextId md \<notin> set (ids md)" by auto
  then show ?thesis by (simp add: search_None_iff)
qed

lemma search_single: "item_id new = k \<Longrightarrow> search k [new] = Some new"
  by (cases new) simp

lemma search_snoc_new:
  "search k s = None \<Longrightarrow> item_id new = k \<Longrightarrow> search k (s @ [new]) = Some new"
  by (cases new) (simp add: search_append)

lemma search_Cons:
  "search k (it # arr) = (case search k [it] of Some r \<Rightarrow> Some r | None \<Rightarrow> search k arr)"
  using search_append [of k "[it]" arr] by simp

lemma search_mutate_new:
  assumes "search k arr = None" and "mutate p f arr = Some arr'"
    and "\<And>it. search k [it] = None \<Longrightarrow> search k [f it] = Some new"
  shows "search k arr' = Some new"
  using assms
proof (induction p f arr arbitrary: arr' rule: mutate.induct)
  case (1 i f)
  then show ?case by simp
next
  case (2 i g j n e c sub arr)
  note f = "2.prems"(3)
  have head: "search k [Item j n e c sub] = None" and tail: "search k arr = None"
    using "2.prems"(1) search_Cons [of k "Item j n e c sub" arr]
    by (auto split: option.splits if_splits)
  show ?case
  proof (cases "j = i")
    case True
    with "2.prems"(2) have "arr' = g (Item j n e c sub) # arr" by simp
    then show ?thesis
      using f [OF head] search_Cons [of k "g (Item j n e c sub)" arr] by simp
  next
    case neq: False
    from head have jk: "j \<noteq> k" by (auto split: if_splits)
    show ?thesis
    proof (cases sub)
      case None
      with neq "2.prems"(2) obtain t where t: "mutate i g arr = Some t" "arr' = Item j n e c None # t"
        by auto
      from "2.IH"(1) [OF neq None tail t(1) f] have "search k t = Some new" .
      with t(2) jk show ?thesis by simp
    next
      case (Some s)
      from head Some jk have sk: "search k s = None" by (auto split: option.splits)
      show ?thesis
      proof (cases "mutate i g s")
        case None
        with Some neq "2.prems"(2) obtain t where
          t: "mutate i g arr = Some t" "arr' = Item j n e c (Some s) # t"
          by auto
        from "2.IH"(3) [OF neq Some None tail t(1) f] have "search k t = Some new" .
        with t(2) jk sk show ?thesis by simp
      next
        case found: (Some s')
        with Some neq "2.prems"(2) have a: "arr' = Item j n e c (Some s') # arr" by simp
        from "2.IH"(2) [OF neq Some sk found f] have "search k s' = Some new" .
        with a jk show ?thesis by simp
      qed
    qed
  qed
qed

lemma search_push_submenu:
  "search k [it] = None \<Longrightarrow> item_id new = k \<Longrightarrow> search k [push_submenu new it] = Some new"
  by (cases it) (auto simp: push_submenu_def search_snoc_new search_single split: option.splits if_splits)

lemma ids_mem_entries: "i \<in> set (ids arr) \<longleftrightarrow> (\<exists>r \<in> set (entries anc arr). entry_id r = i)"
  unfolding entries_ids [of anc arr, symmetric] by auto

lemma takeWhile_shorter: "\<exists>x \<in> set xs. \<not> P x \<Longrightarrow> length (takeWhile P xs) < length xs"
  by (induction xs) auto

lemma first_index_Cons:
  "first_index i (r # es) = (if entry_id r = i then 0 else Suc (first_index i es))"
  by (simp add: first_index_def)

lemma first_index_append_found:
  "i \<in> set (ids s) \<Longrightarrow>
   first_index i (entries anc s @ es) = first_index i (entries anc s) \<and>
   first_index i (entries anc s) < length (entries anc s)"
proof -
  assume "i \<in> set (ids s)"
  then obtain r where r: "r \<in> set (entries anc s)" "entry_id r = i"
    using ids_mem_entries [of i s anc] by auto
  then have "takeWhile (\<lambda>r. entry_id r \<noteq> i) (entries anc s @ es) =
             takeWhile (\<lambda>r. entry_id r \<noteq> i) (entries anc s)"
    by (intro takeWhile_append1 [of r]) auto
  moreover have "length (takeWhile (\<lambda>r. entry_id r \<noteq> i) (entries anc s)) < length (entries anc s)"
    using r by (intro takeWhile_shorter) auto
  ultimately show ?thesis by (simp add: first_index_def)
qed

lemma first_index_append_absent:
  "i \<notin> set (ids s) \<Longrightarrow>
   first_index i (entries anc s @ es) = length (entries anc s) + first_index i es"
proof -
  assume "i \<notin> set (ids s)"
  then have "\<And>r. r \<in> set (entries anc s) \<Longrightarrow> entry_id r \<noteq> i"
    using ids_mem_entries [of i s anc] by auto
  then have "takeWhile (\<lambda>r. entry_id r \<noteq> i) (entries anc s @ es) =
             entries anc s @ takeWhile (\<lambda>r. entry_id r \<noteq> i) es"
    by (intro takeWhile_append2) auto
  then show ?thesis by (simp add: first_index_def)
qed

lemma first_index_found:
  "i \<in> set (ids arr) \<Longrightarrow>
   first_index i (entries anc arr) < length (entries anc arr) \<and>
   entry_id (entries anc arr ! first_index i (entries anc arr)) = i"
proof -
  assume "i \<in> set (ids arr)"
  then have ex: "\<exists>r \<in> set (entries anc arr). \<not> entry_id r \<noteq> i"
    using ids_mem_entries [of i arr anc] by auto
  have lt: "first_index i (entries anc arr) < length (entries anc arr)"
    unfolding first_index_def using ex by (rule takeWhile_shorter)
  have "\<not> entry_id (entries anc arr ! first_index i (entries anc arr)) \<noteq> i"
    unfolding first_index_def using lt [unfolded first_index_def] by (rule nth_length_takeWhile)
  with lt show ?thesis by simp
qed

lemma entries_mutate_assign:
  "mutate i f arr = Some arr' \<Longrightarrow> f = assign_fields n e c \<Longrightarrow>
   entries anc arr' =
     (entries anc arr)[first_index i (entries anc arr) :=
        overwrite n e c (entries anc arr ! first_index i (entries anc arr))]"
proof (induction i f arr arbitrary: arr' anc rule: mutate.induct)
  case (1 i f)
  then show ?case by simp
next
  case (2 i f j n0 e0 c0 sub arr)
  note feq = "2.prems"(2)
  show ?case
  proof (cases "j = i")
    case True
    with "2.prems" have "arr' = Item i n e (Some c) sub # arr"
      by (simp add: assign_fields_def)
    with True show ?thesis
      by (simp add: first_index_Cons overwrite_def)
  next
    case neq: False
    show ?thesis
    proof (cases sub)
      case None
      with neq "2.prems"(1) obtain t where t: "mutate i f arr = Some t" "arr' = Item j n0 e0 c0 None # t"
        by auto
      from "2.IH"(1) [OF neq None t(1) feq, of anc] t(2) None neq show ?thesis
        by (simp add: first_index_Cons)
    next
      case (Some s)
      show ?thesis
      proof (cases "mutate i f s")
        case None
        with Some neq "2.prems"(1) obtain t where
          t: "mutate i f arr = Some t" "arr' = Item j n0 e0 c0 (Some s) # t"
          by auto
        from None have "i \<notin> set (ids s)" by (simp add: mutate_None_iff search_None_iff)
        note fi = first_index_append_absent [OF this, of "anc @ [j]" "entries anc arr"]
        from "2.IH"(3) [OF neq Some None t(1) feq, of anc] t(2) Some neq show ?thesis
          by (simp add: first_index_Cons fi list_update_append nth_append)
      next
        case found: (Some s')
        with Some neq "2.prems"(1) have a: "arr' = Item j n0 e0 c0 (Some s') # arr" by simp
        from found have "i \<in> set (ids s)"
          using mutate_None_iff [of i f s] search_None_iff [of i s] by auto
        note fi = first_index_append_found [OF this, of "anc @ [j]" "entries anc arr"]
        from "2.IH"(2) [OF neq Some found feq, of "anc @ [j]"] a Some neq show ?thesis
          by (simp add: first_index_Cons fi list_update_append nth_append)
      qed
    qed
  qed
qed

section \<open>The pattern of \<open>validateUrl\<close>\<close>

lemma literal_Some_iff:
  "literal p s = Some r \<longleftrightarrow> (\<exists>q. s = q @ r \<and> map canonicalize q = map canonicalize p)"
proof (induction p s rule: literal.induct)
  case (1 s)
  then show ?case by auto
next
  case (2 p ps)
  then show ?case by auto
next
  case (3 p ps c s)
  show ?case
  proof (cases "canonicalize c = canonicalize p")
    case True
    have "(\<exists>q. c # s = q @ r \<and> map canonicalize q = map canonicalize (p # ps)) \<longleftrightarrow>
          (\<exists>q'. s = q' @ r \<and> map canonicalize q' = map canonicalize ps)"
      using True by (auto simp: Cons_eq_append_conv map_eq_Cons_conv)
    with 3 True show ?thesis by simp
  next
    case False
    then show ?thesis by (auto simp: Cons_eq_append_conv map_eq_Cons_conv)
  qed
qed

lemma literal_append:
  "literal (p @ q) s = (case literal p s of None \<Rightarrow> None | Some r \<Rightarrow> literal q r)"
  by (induction p s rule: literal.induct) auto

lemma ascii_append: "ascii (a @ b) = ascii a @ ascii b"
  by (simp add: ascii_def)

lemma canon_lits:
  "map canonicalize (ascii ''/'') = ascii ''/''"
  "map canonicalize (ascii ''http://'') = ascii ''HTTP://''"
  "map canonicalize (ascii ''https://'') = ascii ''HTTPS://''"
  by (simp_all add: canonicalize_def ascii_def)

lemma https_split: "literal (ascii ''https://'') s =
  (case literal (ascii ''http'') s of None \<Rightarrow> None
   | Some r \<Rightarrow> (case literal (ascii ''s'') r of None \<Rightarrow> None | Some r1 \<Rightarrow> literal (ascii ''://'') r1))"
proof -
  have "ascii ''https://'' = ascii ''http'' @ ascii ''s'' @ ascii ''://''"
    by (simp add: ascii_def)
  then show ?thesis
    by (simp add: literal_append split: option.splits)
qed

lemma http_split: "literal (ascii ''http://'') s =
  (case literal (ascii ''http'') s of None \<Rightarrow> None | Some r \<Rightarrow> literal (ascii ''://'') r)"
proof -
  have "ascii ''http://'' = ascii ''http'' @ ascii ''://''"
    by (simp add: ascii_def)
  then show ?thesis
    by (simp add: literal_append)
qed

lemma pattern_test_iff:
  "pattern_test url \<longleftrightarrow>
   (\<exists>r. (literal (ascii ''/'') url = Some r \<or> literal (ascii ''http://'') url = Some r \<or>
         literal (ascii ''https://'') url = Some r) \<and> dotPlus r)"
  unfolding pattern_test_def colonSlashSlash_dotPlus_def https_split http_split
  by (auto split: option.splits)

lemma dotPlus_iff: "dotPlus r \<longleftrightarrow> (\<exists>c rest. r = c # rest \<and> \<not> lineTerminator c)"
  by (cases r) (auto simp: dotPlus_def)

lemma ex_split:
  "(\<exists>r. ((\<exists>q. u = q @ r \<and> A q) \<or> (\<exists>q. u = q @ r \<and> B q) \<or> (\<exists>q. u = q @ r \<and> C q)) \<and>
        (\<exists>c rest. r = c # rest \<and> D c)) \<longleftrightarrow>
   (\<exists>p c rest. u = p @ c # rest \<and> (A p \<or> B p \<or> C p) \<and> D c)"
  by blast

text \<open>
  What \<open>validateUrl\<close> accepts: one of the three prefixes, letters in either case, and
  then at least one code unit that is not a line terminator.
\<close>

lemma validateUrl_iff:
  "validateUrl url \<longleftrightarrow>
   (\<exists>p c rest. url = p @ c # rest \<and>
      (map canonicalize p = ascii ''/'' \<or> map canonicalize p = ascii ''HTTP://'' \<or>
       map canonicalize p = ascii ''HTTPS://'') \<and>
      \<not> lineTerminator c)"
proof -
  have "validateUrl url \<longleftrightarrow> pattern_test url"
    by (auto simp: validateUrl_def pattern_test_def ascii_def)
  also have "\<dots> \<longleftrightarrow>
    (\<exists>r. ((\<exists>q. url = q @ r \<and> map canonicalize q = ascii ''/'') \<or>
          (\<exists>q. url = q @ r \<and> map canonicalize q = ascii ''HTTP://'') \<or>
          (\<exists>q. url = q @ r \<and> map canonicalize q = ascii ''HTTPS://'')) \<and> dotPlus r)"
    unfolding pattern_test_iff literal_Some_iff canon_lits ..
  also have "\<dots> \<longleftrightarrow>
    (\<exists>p c rest. url = p @ c # rest \<and>
      (map canonicalize p = ascii ''/'' \<or> map canonicalize p = ascii ''HTTP://'' \<or>
       map canonicalize p = ascii ''HTTPS://'') \<and>
      \<not> lineTerminator c)"
    unfolding dotPlus_iff by (rule ex_split)
  finally show ?thesis .
qed

section \<open>Evaluating the handlers\<close>

lemmas validateUrl_eval =
  validateUrl_def pattern_test_def colonSlashSlash_dotPlus_def dotPlus_def lineTerminator_def
  canonicalize_def ascii_def

lemmas submit_eval =
  submit_def create_branch_def update_branch_def push_root_def showMessage_def
  push_submenu_def assign_fields_def trim_def whiteSpace_def Let_def

lemma submit_create:
  "trim (nombreInput f) \<noteq> [] \<Longrightarrow> validateUrl (trim (enlaceInput f)) \<Longrightarrow>
   editingIdInput f = None \<or> editingIdInput f = Some 0 \<Longrightarrow>
   submit f st =
     create_branch (parentIdInput f) (trim (nombreInput f)) (trim (enlaceInput f))
       (trim (iconoInput f)) st"
  by (auto simp: submit_def Let_def)

lemma create_branch_root:
  "parentId = None \<or> parentId = Some 0 \<Longrightarrow>
   create_branch parentId n e c st =
     \<lparr>menuData = menuData st @ [Item (nextId (menuData st)) n e (Some c) None],
      messages = messages st @ [(NuevaOpcion, False)]\<rparr>"
  by (auto simp: create_branch_def Let_def push_root_def showMessage_def)

lemma create_branch_missing_parent:
  "p \<noteq> 0 \<Longrightarrow> search p (menuData st) = None \<Longrightarrow>
   create_branch (Some p) n e c st =
     \<lparr>menuData = menuData st @ [Item (nextId (menuData st)) n e (Some c) None],
      messages = messages st @ [(ParentNoEncontrado, False), (NuevaOpcion, False)]\<rparr>"
  using mutate_None_iff [of p "push_submenu (Item (nextId (menuData st)) n e (Some c) None)" "menuData st"]
  by (simp add: create_branch_def Let_def push_root_def showMessage_def)

lemma create_branch_parent:
  "p \<noteq> 0 \<Longrightarrow> search p (menuData st) = Some parent \<Longrightarrow>
   \<exists>md. mutate p (push_submenu (Item (nextId (menuData st)) n e (Some c) None)) (menuData st) = Some md \<and>
        search p md = Some (push_submenu (Item (nextId (menuData st)) n e (Some c) None) parent) \<and>
        create_branch (Some p) n e c st =
          \<lparr>menuData = md, messages = messages st @ [(NuevaOpcion, False)]\<rparr>"
proof -
  assume p: "p \<noteq> 0" and s: "search p (menuData st) = Some parent"
  let ?new = "Item (nextId (menuData st)) n e (Some c) None"
  have "item_id (push_submenu ?new parent) = p"
    using search_Some_id [OF s] by (simp add: push_submenu_def)
  from search_mutate [of p "menuData st" parent "push_submenu ?new", OF s this] obtain md where
    md: "mutate p (push_submenu ?new) (menuData st) = Some md"
      "search p md = Some (push_submenu ?new parent)" by blast
  with p show ?thesis
    by (simp add: create_branch_def Let_def showMessage_def)
qed

lemma entries_append: "entries anc (xs @ ys) = entries anc xs @ entries anc ys"
  by (induction anc xs rule: entries.induct) simp_all

lemma entries_push:
  assumes "mutate p f arr = Some arr'" and "f = push_submenu (Item i n e c None)"
  shows "\<exists>xs ys k. entries anc arr' = xs @ Entry (ancestors (entries anc arr ! k) @ [p]) i n e c False # ys \<and>
           k < length (entries anc arr) \<and> entry_id (entries anc arr ! k) = p \<and>
           xs @ ys = (entries anc arr)[k := flagged (entries anc arr ! k)]"
  using assms
proof (induction p f arr arbitrary: arr' anc rule: mutate.induct)
  case (1 i f)
  then show ?case by simp
next
  case (2 p f j n0 e0 c0 sub arr)
  note feq = "2.prems"(2)
  let ?E = "Entry anc j n0 e0 c0 (sub \<noteq> None)"
  let ?new = "\<lambda>a. Entry a i n e c False"
  show ?case
  proof (cases "j = p")
    case True
    let ?ch = "case sub of None \<Rightarrow> [] | Some s \<Rightarrow> s"
    from True "2.prems" have a: "arr' = Item j n0 e0 c0 (Some (?ch @ [Item i n e c None])) # arr"
      by (simp add: push_submenu_def)
    have sub: "(case sub of None \<Rightarrow> [] | Some s \<Rightarrow> entries (anc @ [j]) s) = entries (anc @ [j]) ?ch"
      by (cases sub) simp_all
    let ?xs = "Entry anc j n0 e0 c0 True # entries (anc @ [j]) ?ch"
    have "entries anc arr' = ?xs @ ?new (anc @ [j]) # entries anc arr"
      by (simp add: a entries_append)
    moreover have "?xs @ entries anc arr =
        (entries anc (Item j n0 e0 c0 sub # arr))[0 := flagged (entries anc (Item j n0 e0 c0 sub # arr) ! 0)]"
      by (simp add: sub flagged_def)
    ultimately show ?thesis
      using True by (intro exI [of _ ?xs] exI [of _ "entries anc arr"] exI [of _ 0]) simp
  next
    case neq: False
    show ?thesis
    proof (cases sub)
      case None
      with neq "2.prems"(1) obtain t where t: "mutate p f arr = Some t" "arr' = Item j n0 e0 c0 None # t"
        by auto
      from "2.IH"(1) [OF neq None t(1) feq, of anc] obtain xs ys k where
        h: "entries anc t = xs @ ?new (ancestors (entries anc arr ! k) @ [p]) # ys"
          "k < length (entries anc arr)" "entry_id (entries anc arr ! k) = p"
          "xs @ ys = (entries anc arr)[k := flagged (entries anc arr ! k)]"
        by blast
      show ?thesis
        using h None t(2)
        by (intro exI [of _ "?E # xs"] exI [of _ ys] exI [of _ "Suc k"]) simp
    next
      case (Some s)
      let ?es = "entries (anc @ [j]) s"
      show ?thesis
      proof (cases "mutate p f s")
        case None
        with Some neq "2.prems"(1) obtain t where
          t: "mutate p f arr = Some t" "arr' = Item j n0 e0 c0 (Some s) # t"
          by auto
        from "2.IH"(3) [OF neq Some None t(1) feq, of anc] obtain xs ys k where
          h: "entries anc t = xs @ ?new (ancestors (entries anc arr ! k) @ [p]) # ys"
            "k < length (entries anc arr)" "entry_id (entries anc arr ! k) = p"
            "xs @ ys = (entries anc arr)[k := flagged (entries anc arr ! k)]"
          by blast
        show ?thesis
          using h Some t(2)
          by (intro exI [of _ "?E # ?es @ xs"] exI [of _ ys] exI [of _ "Suc (length ?es + k)"])
            (simp add: nth_append list_update_append)
      next
        case found: (Some s')
        with Some neq "2.prems"(1) have a: "arr' = Item j n0 e0 c0 (Some s') # arr" by simp
        from "2.IH"(2) [OF neq Some found feq, of "anc @ [j]"] obtain xs ys k where
          h: "entries (anc @ [j]) s' = xs @ ?new (ancestors (?es ! k) @ [p]) # ys"
            "k < length ?es" "entry_id (?es ! k) = p"
            "xs @ ys = ?es[k := flagged (?es ! k)]"
          by blast
        have u: "?E # (xs @ ys) @ entries anc arr = ?E # ?es[k := flagged (?es ! k)] @ entries anc arr"
          using h(4) by simp
        show ?thesis
          using h(1,2,3) u Some a
          by (intro exI [of _ "?E # xs"] exI [of _ "ys @ entries anc arr"] exI [of _ "Suc k"])
            (simp add: nth_append list_update_append)
      qed
    qed
  qed
qed

lemmas number_eval = nextId_def toNumber_def nearest_small nearest_next

lemma submit_rejected:
  "trim (nombreInput f) = [] \<or> \<not> validateUrl (trim (enlaceInput f)) \<Longrightarrow>
   submit f st =
     showMessage (if trim (nombreInput f) = [] then NombreObligatorio else EnlaceInvalido) True st"
  by (auto simp: submit_def Let_def)

lemma submit_update:
  "trim (nombreInput f) \<noteq> [] \<Longrightarrow> validateUrl (trim (enlaceInput f)) \<Longrightarrow>
   editingIdInput f = Some i \<Longrightarrow> i \<noteq> 0 \<Longrightarrow>
   submit f st =
     update_branch i (trim (nombreInput f)) (trim (enlaceInput f)) (trim (iconoInput f)) st"
  by (auto simp: submit_def Let_def)

lemma trim_Nil: "trim [] = []"
  by (simp add: trim_def)

lemma trim_eval:
  "trim (ascii ''About'') = ascii ''About''" "trim (ascii '' About '') = ascii ''About''"
  "trim (ascii ''/about'') = ascii ''/about''" "trim (ascii ''Start'') = ascii ''Start''"
  "trim (ascii ''/start'') = ascii ''/start''" "trim (ascii ''ftp://x'') = ascii ''ftp://x''"
  by (simp_all add: trim_def whiteSpace_def ascii_def)

lemma accepted_eval:
  "trim (ascii ''About'') \<noteq> []" "validateUrl (trim (ascii ''/about''))"
  "trim (ascii ''Start'') \<noteq> []" "validateUrl (trim (ascii ''/start''))"
  "trim (ascii ''News'') \<noteq> []" "validateUrl (trim (ascii '' https://n.example ''))"
  by (simp_all add: trim_def whiteSpace_def ascii_def validateUrl_def pattern_test_def
      colonSlashSlash_dotPlus_def dotPlus_def lineTerminator_def canonicalize_def)

text \<open>What an accepted edit with an editing id other than 0 does.\<close>

lemma update_overwrites_fields_only:
  assumes "trim (nombreInput f) \<noteq> []" and "validateUrl (trim (enlaceInput f))"
    and "editingIdInput f = Some i" and "i \<noteq> 0"
  shows
    "let n = trim (nombreInput f); e = trim (enlaceInput f); c = trim (iconoInput f);
         es = entries [] (menuData st); k = first_index i es
     in (case findById i (menuData st) of
           Some it \<Rightarrow>
             findById i (menuData (submit f st)) = Some (Item i n e (Some c) (submenu it)) \<and>
             k < length es \<and> entry_id (es ! k) = i \<and>
             entries [] (menuData (submit f st)) = es[k := overwrite n e c (es ! k)] \<and>
             messages (submit f st) = messages st @ [(Actualizado, False)]
         | None \<Rightarrow>
             menuData (submit f st) = menuData st \<and>
             messages (submit f st) = messages st @ [(EditarNoEncontrado, True)])"
proof -
  let ?n = "trim (nombreInput f)" and ?e = "trim (enlaceInput f)" and ?c = "trim (iconoInput f)"
  have sub: "submit f st = update_branch i ?n ?e ?c st"
    using assms by (simp add: submit_update)
  show ?thesis
  proof (cases "search i (menuData st)")
    case None
    then have "mutate i (assign_fields ?n ?e ?c) (menuData st) = None"
      by (simp add: mutate_None_iff)
    with None show ?thesis
      by (simp add: sub update_branch_def showMessage_def findById_def Let_def)
  next
    case (Some it)
    have idf: "item_id (assign_fields ?n ?e ?c it) = i"
      using search_Some_id [OF Some] by (simp add: assign_fields_def)
    from search_mutate [of i "menuData st" it "assign_fields ?n ?e ?c", OF Some idf]
    obtain md where md: "mutate i (assign_fields ?n ?e ?c) (menuData st) = Some md"
      "search i md = Some (assign_fields ?n ?e ?c it)" by blast
    have st': "submit f st = \<lparr>menuData = md, messages = messages st @ [(Actualizado, False)]\<rparr>"
      using md(1) by (simp add: sub update_branch_def showMessage_def)
    have "i \<in> set (ids (menuData st))" using Some search_None_iff [of i "menuData st"] by auto
    note k = first_index_found [OF this, of "[]"]
    note fr = entries_mutate_assign [OF md(1) refl, of "[]"]
    from md(2) k fr search_Some_id [OF Some] Some show ?thesis
      by (simp add: st' findById_def Let_def assign_fields_def)
  qed
qed

section \<open>The round trip of the text\<close>













































lemma replicate_2: "replicate 2 x = [x, x]"
  by (simp add: numeral_2_eq_2)

lemma indentation_0_1: "indentation 0 = [0x0A]" "indentation (Suc 0) = [0x0A, 0x20, 0x20]"
  by (simp_all add: indentation_def replicate_2)

lemma quote_menu: "quoteJSONString (ascii ''menu'') = [0x22] @ ascii ''menu'' @ [0x22]"
  by (simp add: ascii_def quoteJSONString_def quoteUnit_def highSurrogate_def lowSurrogate_def)

lemma serialize_empty:
  "serialize wr [] = [0x7B, 0x0A, 0x20, 0x20, 0x22] @ ascii ''menu'' @ [0x22] @ ascii '': []'' @ [0x0A, 0x7D]"
  by (simp add: serialize_def indentation_0_1 quote_menu) (simp add: ascii_def)

section \<open>The claims\<close>

subsection \<open>Deleting\<close>

text \<open>
  Claim C1. After \<open>deleteItem\<close> of an id (the user having confirmed), \<open>findById\<close> of
  that id finds nothing. What is left of the forest is exactly the entries that neither
  have the id nor lie below an entry that has it, in their original order and with their
  ancestors and fields as before: only matching nodes go, each with its own subtree.
  When no entry has the id, the forest is unchanged; the operation has no error result.
\<close>

theorem deleteItem_removes_matches_only:
  "findById i (menuData (deleteItem True i st)) = None \<and>
   entries [] (menuData (deleteItem True i st)) =
     filter (\<lambda>r. entry_id r \<noteq> i \<and> i \<notin> set (ancestors r)) (entries [] (menuData st)) \<and>
   (findById i (menuData st) = None \<longrightarrow> menuData (deleteItem True i st) = menuData st)"
proof -
  have md: "menuData (deleteItem True i st) = filterOut i (menuData st)"
    by (simp add: deleteItem_def showMessage_def)
  have "findById i (filterOut i (menuData st)) = None"
    by (simp add: findById_def search_None_iff ids_filterOut)
  moreover have "entries [] (filterOut i (menuData st)) =
      filter (\<lambda>r. entry_id r \<noteq> i \<and> i \<notin> set (ancestors r)) (entries [] (menuData st))"
    by (rule entries_filterOut) simp
  moreover have "filterOut i (menuData st) = menuData st" if "findById i (menuData st) = None"
    using that by (simp add: findById_def search_None_iff filterOut_absent)
  ultimately show ?thesis unfolding md by blast
qed

theorem deleteItem_removes_matches_only_witness:
  "findById 9
     (menuData \<lparr>menuData =
        [Item 1 (ascii ''Home'') (ascii ''/'') None
           (Some [Item 2 (ascii ''A'') (ascii ''/a'') None None,
                  Item 3 (ascii ''B'') (ascii ''/b'') None None]),
         Item 4 (ascii ''C'') (ascii ''/c'') None None], messages = []\<rparr>) = None \<and>
   menuData (deleteItem True 9 \<lparr>menuData =
        [Item 1 (ascii ''Home'') (ascii ''/'') None
           (Some [Item 2 (ascii ''A'') (ascii ''/a'') None None,
                  Item 3 (ascii ''B'') (ascii ''/b'') None None]),
         Item 4 (ascii ''C'') (ascii ''/c'') None None], messages = []\<rparr>) =
     [Item 1 (ascii ''Home'') (ascii ''/'') None
        (Some [Item 2 (ascii ''A'') (ascii ''/a'') None None,
               Item 3 (ascii ''B'') (ascii ''/b'') None None]),
      Item 4 (ascii ''C'') (ascii ''/c'') None None] \<and>
   entries [] (menuData (deleteItem True 2 \<lparr>menuData =
        [Item 1 (ascii ''Home'') (ascii ''/'') None
           (Some [Item 2 (ascii ''A'') (ascii ''/a'') None None,
                  Item 3 (ascii ''B'') (ascii ''/b'') None None]),
         Item 4 (ascii ''C'') (ascii ''/c'') None None], messages = []\<rparr>)) =
     [Entry [] 1 (ascii ''Home'') (ascii ''/'') None True,
      Entry [1] 3 (ascii ''B'') (ascii ''/b'') None False,
      Entry [] 4 (ascii ''C'') (ascii ''/c'') None False]"
proof -
  let ?st = "\<lparr>menuData =
        [Item 1 (ascii ''Home'') (ascii ''/'') None
           (Some [Item 2 (ascii ''A'') (ascii ''/a'') None None,
                  Item 3 (ascii ''B'') (ascii ''/b'') None None]),
         Item 4 (ascii ''C'') (ascii ''/c'') None None], messages = []\<rparr>"
  have h: "findById 9 (menuData ?st) = None" by (simp add: findById_def)
  from deleteItem_removes_matches_only [of 9 ?st] h
  have a: "menuData (deleteItem True 9 ?st) = menuData ?st" by blast
  from deleteItem_removes_matches_only [of 2 ?st]
  have b: "entries [] (menuData (deleteItem True 2 ?st)) =
     filter (\<lambda>r. entry_id r \<noteq> 2 \<and> 2 \<notin> set (ancestors r)) (entries [] (menuData ?st))" by blast
  show ?thesis using h a b by simp
qed

subsection \<open>Validating a link\<close>

text \<open>
  Claim C2, at the input on which the script departs from it. The claim, like the comment
  of \<open>validateUrl\<close> and the error text of the form, accepts every non-empty string that
  begins with \<open>/\<close>. The pattern of the script ends in \<open>.+\<close>, so \<open>validateUrl\<close> rejects the
  string \<open>/\<close> itself.
\<close>

theorem validateUrl_rejects_bare_slash:
  "spec_validateHref (ascii ''/'') \<and> \<not> validateUrl (ascii ''/'')"
  by (simp add: spec_validateHref_def validateUrl_eval)

theorem validateUrl_rejects_bare_slash_witness:
  "validateUrl (ascii ''/'') = False"
  using validateUrl_rejects_bare_slash by simp

subsection \<open>Allocating an id\<close>

text \<open>
  Claim C3, at the inputs on which the script departs from it. The claim, like the comment
  of \<open>nextId\<close>, says the maximum id plus one. On a forest whose only id is -5 the script
  returns 1, because its maximum starts at 0; on a forest whose only id is \<open>2 ^ 53\<close> it
  returns \<open>2 ^ 53\<close>, because the sum of the Numbers \<open>2 ^ 53\<close> and 1 is \<open>2 ^ 53\<close>.
\<close>

theorem nextId_not_max_plus_one:
  "nextId [Item (- 5) (ascii ''Old'') (ascii ''/old'') None None] = 1 \<and>
   spec_nextId [Item (- 5) (ascii ''Old'') (ascii ''/old'') None None] = - 4 \<and>
   nextId [Item 9007199254740992 (ascii ''Big'') (ascii ''/big'') None None] = 9007199254740992 \<and>
   spec_nextId [Item 9007199254740992 (ascii ''Big'') (ascii ''/big'') None None] =
     9007199254740993"
  by (simp add: number_eval spec_nextId_def)

theorem nextId_not_max_plus_one_witness:
  "nextId [Item (- 5) (ascii ''Old'') (ascii ''/old'') None None] = 1"
  using nextId_not_max_plus_one by simp

text \<open>
  Claim C4, at the input on which the script departs from it. On the forest whose only id
  is \<open>2 ^ 53\<close>, \<open>nextId\<close> returns that id again, and \<open>findById\<close> of it finds the entry.
\<close>

theorem nextId_repeats_id:
  "findById (nextId [Item 9007199254740992 (ascii ''Big'') (ascii ''/big'') None None])
     [Item 9007199254740992 (ascii ''Big'') (ascii ''/big'') None None] =
   Some (Item 9007199254740992 (ascii ''Big'') (ascii ''/big'') None None)"
  by (simp add: number_eval findById_def)

theorem nextId_repeats_id_witness:
  "findById (nextId [Item 9007199254740992 (ascii ''Big'') (ascii ''/big'') None None])
     [Item 9007199254740992 (ascii ''Big'') (ascii ''/big'') None None] \<noteq> None"
  using nextId_repeats_id by simp

subsection \<open>Creating an entry\<close>

text \<open>
  Claim C5, at the inputs on which the script departs from it. With an entry of id 0 in
  the forest and the parent id 0, \<open>findById 0\<close> resolves, yet the handler takes 0 for no
  parent id: the new entry goes to the root and the entry 0 gets no child. With the
  parent id 5, which does not resolve, the warning is written to the message box and
  replaced in the same run by the success message, which is what the box shows.
\<close>

theorem submit_parent_zero_goes_to_root:
  "findById 0 [Item 0 (ascii ''Home'') (ascii ''/h'') None None] =
     Some (Item 0 (ascii ''Home'') (ascii ''/h'') None None) \<and>
   submit
     \<lparr>editingIdInput = None, nombreInput = ascii ''About'', enlaceInput = ascii ''/about'',
      iconoInput = [], parentIdInput = Some 0\<rparr>
     \<lparr>menuData = [Item 0 (ascii ''Home'') (ascii ''/h'') None None], messages = []\<rparr> =
   \<lparr>menuData = [Item 0 (ascii ''Home'') (ascii ''/h'') None None,
                Item 1 (ascii ''About'') (ascii ''/about'') (Some []) None],
    messages = [(NuevaOpcion, False)]\<rparr> \<and>
   messageBox (submit
     \<lparr>editingIdInput = None, nombreInput = ascii ''About'', enlaceInput = ascii ''/about'',
      iconoInput = [], parentIdInput = Some 5\<rparr>
     \<lparr>menuData = [Item 0 (ascii ''Home'') (ascii ''/h'') None None], messages = []\<rparr>) =
     Some (NuevaOpcion, False)"
proof -
  let ?st = "\<lparr>menuData = [Item 0 (ascii ''Home'') (ascii ''/h'') None None], messages = []\<rparr>"
  let ?f = "\<lambda>p. \<lparr>editingIdInput = None, nombreInput = ascii ''About'',
      enlaceInput = ascii ''/about'', iconoInput = [], parentIdInput = Some p\<rparr>"
  have next1: "nextId [Item 0 (ascii ''Home'') (ascii ''/h'') None None] = 1"
    by (simp add: number_eval)
  have sub: "submit (?f p) ?st =
      create_branch (Some p) (trim (ascii ''About'')) (trim (ascii ''/about'')) (trim []) ?st" for p
    using submit_create [of "?f p" ?st] accepted_eval by simp
  have a: "submit (?f 0) ?st =
      \<lparr>menuData = [Item 0 (ascii ''Home'') (ascii ''/h'') None None,
                   Item 1 (ascii ''About'') (ascii ''/about'') (Some []) None],
       messages = [(NuevaOpcion, False)]\<rparr>"
    unfolding sub by (simp add: create_branch_root next1 trim_eval trim_Nil)
  have "search 5 (menuData ?st) = None" by simp
  then have "messages (submit (?f 5) ?st) = [(ParentNoEncontrado, False), (NuevaOpcion, False)]"
    unfolding sub by (simp add: create_branch_missing_parent)
  then have b: "messageBox (submit (?f 5) ?st) = Some (NuevaOpcion, False)"
    by (simp add: messageBox_def)
  have c: "findById 0 [Item 0 (ascii ''Home'') (ascii ''/h'') None None] =
     Some (Item 0 (ascii ''Home'') (ascii ''/h'') None None)"
    by (simp add: findById_def)
  from a b c show ?thesis by simp
qed

theorem submit_parent_zero_goes_to_root_witness:
  "menuData (submit
     \<lparr>editingIdInput = None, nombreInput = ascii ''About'', enlaceInput = ascii ''/about'',
      iconoInput = [], parentIdInput = Some 0\<rparr>
     \<lparr>menuData = [Item 0 (ascii ''Home'') (ascii ''/h'') None None], messages = []\<rparr>) =
   [Item 0 (ascii ''Home'') (ascii ''/h'') None None,
    Item 1 (ascii ''About'') (ascii ''/about'') (Some []) None]"
proof -
  from submit_parent_zero_goes_to_root have "submit
     \<lparr>editingIdInput = None, nombreInput = ascii ''About'', enlaceInput = ascii ''/about'',
      iconoInput = [], parentIdInput = Some 0\<rparr>
     \<lparr>menuData = [Item 0 (ascii ''Home'') (ascii ''/h'') None None], messages = []\<rparr> =
   \<lparr>menuData = [Item 0 (ascii ''Home'') (ascii ''/h'') None None,
                Item 1 (ascii ''About'') (ascii ''/about'') (Some []) None],
    messages = [(NuevaOpcion, False)]\<rparr>" by blast
  then show ?thesis by simp
qed

text \<open>
  Claim C9. An entry made by the create path has no children. After an accepted
  submission on the create path the listing of the forest is the old listing with one
  entry more; that entry carries the new id and the submitted fields and has no property
  \<open>submenu\<close>. It stands at the end of the root sequence, or below an entry of the old
  forest, which then has the property \<open>submenu\<close>; all other entries are as before.
\<close>

theorem created_entry_has_no_children:
  assumes "trim (nombreInput f) \<noteq> []" and "validateUrl (trim (enlaceInput f))"
    and "editingIdInput f = None \<or> editingIdInput f = Some 0"
  shows
    "\<exists>xs ys anc.
       entries [] (menuData (submit f st)) =
         xs @ Entry anc (nextId (menuData st)) (trim (nombreInput f)) (trim (enlaceInput f))
                (Some (trim (iconoInput f))) False # ys \<and>
       ((anc = [] \<and> ys = [] \<and> xs = entries [] (menuData st)) \<or>
        (\<exists>k. k < length (entries [] (menuData st)) \<and>
           anc = ancestors (entries [] (menuData st) ! k) @ [entry_id (entries [] (menuData st) ! k)] \<and>
           xs @ ys = (entries [] (menuData st))[k := flagged (entries [] (menuData st) ! k)]))"
proof -
  let ?n = "trim (nombreInput f)" and ?e = "trim (enlaceInput f)" and ?c = "trim (iconoInput f)"
  let ?k = "nextId (menuData st)"
  let ?new = "Item ?k ?n ?e (Some ?c) None"
  let ?es = "entries [] (menuData st)"
  have sub: "submit f st = create_branch (parentIdInput f) ?n ?e ?c st"
    using assms by (simp add: submit_create)
  have root: "entries [] (menuData st @ [?new]) = ?es @ [Entry [] ?k ?n ?e (Some ?c) False]"
    by (simp add: entries_append)
  consider "parentIdInput f = None \<or> parentIdInput f = Some 0"
    | p where "parentIdInput f = Some p" "p \<noteq> 0" "search p (menuData st) = None"
    | p parent where "parentIdInput f = Some p" "p \<noteq> 0" "search p (menuData st) = Some parent"
    by (cases "parentIdInput f") auto
  then show ?thesis
  proof cases
    case 1
    then have "entries [] (menuData (submit f st)) = ?es @ Entry [] ?k ?n ?e (Some ?c) False # []"
      using root by (simp add: sub create_branch_root)
    then show ?thesis by blast
  next
    case 2
    then have "entries [] (menuData (submit f st)) = ?es @ Entry [] ?k ?n ?e (Some ?c) False # []"
      using root by (simp add: sub create_branch_missing_parent)
    then show ?thesis by blast
  next
    case 3
    from create_branch_parent [OF 3(2,3), of ?n ?e ?c] obtain md where
      md: "mutate p (push_submenu ?new) (menuData st) = Some md"
        "create_branch (Some p) ?n ?e ?c st =
           \<lparr>menuData = md, messages = messages st @ [(NuevaOpcion, False)]\<rparr>"
      by blast
    from entries_push [OF md(1) refl, of "[]"] obtain xs ys k where
      h: "entries [] md = xs @ Entry (ancestors (?es ! k) @ [p]) ?k ?n ?e (Some ?c) False # ys"
        "k < length ?es" "entry_id (?es ! k) = p" "xs @ ys = ?es[k := flagged (?es ! k)]"
      by blast
    have "menuData (submit f st) = md" using 3(1) md(2) by (simp add: sub)
    with h show ?thesis by blast
  qed
qed

theorem created_entry_has_no_children_witness:
  "\<exists>xs ys.
     entries [] (menuData (submit
       \<lparr>editingIdInput = None, nombreInput = ascii ''About'', enlaceInput = ascii ''/about'',
        iconoInput = [], parentIdInput = Some 2\<rparr>
       \<lparr>menuData = [Item 1 (ascii ''Home'') (ascii ''/h'') None
                      (Some [Item 2 (ascii ''A'') (ascii ''/a'') None None]),
                    Item 3 (ascii ''Docs'') (ascii ''/d'') None None],
        messages = []\<rparr>)) =
     xs @ Entry [1, 2] 4 (ascii ''About'') (ascii ''/about'') (Some []) False # ys \<and>
     xs @ ys =
       [Entry [] 1 (ascii ''Home'') (ascii ''/h'') None True,
        Entry [1] 2 (ascii ''A'') (ascii ''/a'') None True,
        Entry [] 3 (ascii ''Docs'') (ascii ''/d'') None False]"
proof -
  let ?st = "\<lparr>menuData = [Item 1 (ascii ''Home'') (ascii ''/h'') None
                      (Some [Item 2 (ascii ''A'') (ascii ''/a'') None None]),
                    Item 3 (ascii ''Docs'') (ascii ''/d'') None None],
        messages = []\<rparr>"
  let ?f = "\<lparr>editingIdInput = None, nombreInput = ascii ''About'',
      enlaceInput = ascii ''/about'', iconoInput = [], parentIdInput = Some 2\<rparr>"
  let ?es = "[Entry [] 1 (ascii ''Home'') (ascii ''/h'') None True,
        Entry [1] 2 (ascii ''A'') (ascii ''/a'') None False,
        Entry [] 3 (ascii ''Docs'') (ascii ''/d'') None False]"
  have n: "trim (nombreInput ?f) \<noteq> []" using accepted_eval by simp
  have v: "validateUrl (trim (enlaceInput ?f))" using accepted_eval by simp
  have ed: "editingIdInput ?f = None \<or> editingIdInput ?f = Some 0" by simp
  have es: "entries [] (menuData ?st) = ?es" by simp
  have next4: "nextId (menuData ?st) = 4" by (simp add: number_eval)
  have md: "menuData (submit ?f ?st) =
      [Item 1 (ascii ''Home'') (ascii ''/h'') None
         (Some [Item 2 (ascii ''A'') (ascii ''/a'') None
                  (Some [Item 4 (ascii ''About'') (ascii ''/about'') (Some []) None])]),
       Item 3 (ascii ''Docs'') (ascii ''/d'') None None]"
    using submit_create [OF n v ed, of ?st] next4
    by (simp add: create_branch_def showMessage_def push_submenu_def trim_eval trim_Nil)
  from created_entry_has_no_children [OF n v ed, of ?st] obtain xs ys anc where
    h: "entries [] (menuData (submit ?f ?st)) =
         xs @ Entry anc (nextId (menuData ?st)) (trim (nombreInput ?f)) (trim (enlaceInput ?f))
                (Some (trim (iconoInput ?f))) False # ys"
    by blast
  show ?thesis
    unfolding md
    by (intro exI [of _ "[Entry [] 1 (ascii ''Home'') (ascii ''/h'') None True,
        Entry [1] 2 (ascii ''A'') (ascii ''/a'') None True]"]
        exI [of _ "[Entry [] 3 (ascii ''Docs'') (ascii ''/d'') None False]"]) simp
qed

text \<open>
  Claim C10. A submission with parent id 0 behaves exactly as one with no parent id, for
  every forest, also one that holds an entry with id 0; on the create path the new entry
  is appended to the root sequence and the only message is the success message, so no
  warning is issued.
\<close>

theorem parent_zero_is_no_parent:
  "submit (f\<lparr>parentIdInput := Some 0\<rparr>) st = submit (f\<lparr>parentIdInput := None\<rparr>) st \<and>
   (trim (nombreInput f) \<noteq> [] \<and> validateUrl (trim (enlaceInput f)) \<and>
    (editingIdInput f = None \<or> editingIdInput f = Some 0) \<longrightarrow>
    submit (f\<lparr>parentIdInput := Some 0\<rparr>) st =
      \<lparr>menuData = menuData st @
         [Item (nextId (menuData st)) (trim (nombreInput f)) (trim (enlaceInput f))
            (Some (trim (iconoInput f))) None],
       messages = messages st @ [(NuevaOpcion, False)]\<rparr>)"
proof -
  have cb: "create_branch (Some 0) n e c st = create_branch None n e c st" for n e c
    by (simp add: create_branch_def)
  have a: "submit (f\<lparr>parentIdInput := Some 0\<rparr>) st = submit (f\<lparr>parentIdInput := None\<rparr>) st"
    by (simp add: submit_def Let_def cb split: option.splits)
  have b: "submit (f\<lparr>parentIdInput := Some 0\<rparr>) st =
      \<lparr>menuData = menuData st @
         [Item (nextId (menuData st)) (trim (nombreInput f)) (trim (enlaceInput f))
            (Some (trim (iconoInput f))) None],
       messages = messages st @ [(NuevaOpcion, False)]\<rparr>"
    if "trim (nombreInput f) \<noteq> []" "validateUrl (trim (enlaceInput f))"
      "editingIdInput f = None \<or> editingIdInput f = Some 0"
    using that submit_create [of "f\<lparr>parentIdInput := Some 0\<rparr>" st]
    by (simp add: create_branch_root)
  from a b show ?thesis by blast
qed

theorem parent_zero_is_no_parent_witness:
  "submit
     \<lparr>editingIdInput = None, nombreInput = ascii ''About'', enlaceInput = ascii ''/about'',
      iconoInput = [], parentIdInput = Some 0\<rparr>
     \<lparr>menuData = [Item 0 (ascii ''Home'') (ascii ''/h'') None None], messages = []\<rparr> =
   \<lparr>menuData = [Item 0 (ascii ''Home'') (ascii ''/h'') None None,
                Item 1 (ascii ''About'') (ascii ''/about'') (Some []) None],
    messages = [(NuevaOpcion, False)]\<rparr>"
proof -
  let ?st = "\<lparr>menuData = [Item 0 (ascii ''Home'') (ascii ''/h'') None None], messages = []\<rparr>"
  let ?f = "\<lparr>editingIdInput = None, nombreInput = ascii ''About'',
      enlaceInput = ascii ''/about'', iconoInput = [], parentIdInput = None\<rparr>"
  have h: "trim (nombreInput ?f) \<noteq> [] \<and> validateUrl (trim (enlaceInput ?f)) \<and>
    (editingIdInput ?f = None \<or> editingIdInput ?f = Some 0)"
    using accepted_eval by simp
  from parent_zero_is_no_parent [of ?f ?st] h
  have "submit (?f\<lparr>parentIdInput := Some 0\<rparr>) ?st =
      \<lparr>menuData = menuData ?st @
         [Item (nextId (menuData ?st)) (trim (nombreInput ?f)) (trim (enlaceInput ?f))
            (Some (trim (iconoInput ?f))) None],
       messages = messages ?st @ [(NuevaOpcion, False)]\<rparr>"
    by blast
  then show ?thesis by (simp add: number_eval trim_eval trim_Nil)
qed

subsection \<open>Editing an entry\<close>

text \<open>
  Claim C6, at the input on which the script departs from it. With an entry of id 0 in
  the forest and the editing id 0 (which \<open>startEdit\<close> writes into the form for that
  entry), \<open>findById 0\<close> resolves, yet the handler takes 0 for no editing id: the entry keeps
  its fields and a new entry is created.
\<close>

theorem submit_edit_zero_creates:
  "findById 0 [Item 0 (ascii ''Home'') (ascii ''/h'') None None] =
     Some (Item 0 (ascii ''Home'') (ascii ''/h'') None None) \<and>
   submit
     \<lparr>editingIdInput = Some 0, nombreInput = ascii ''Start'', enlaceInput = ascii ''/start'',
      iconoInput = [], parentIdInput = None\<rparr>
     \<lparr>menuData = [Item 0 (ascii ''Home'') (ascii ''/h'') None None], messages = []\<rparr> =
   \<lparr>menuData = [Item 0 (ascii ''Home'') (ascii ''/h'') None None,
                Item 1 (ascii ''Start'') (ascii ''/start'') (Some []) None],
    messages = [(NuevaOpcion, False)]\<rparr>"
proof -
  let ?st = "\<lparr>menuData = [Item 0 (ascii ''Home'') (ascii ''/h'') None None], messages = []\<rparr>"
  let ?f = "\<lparr>editingIdInput = Some 0, nombreInput = ascii ''Start'',
      enlaceInput = ascii ''/start'', iconoInput = [], parentIdInput = None\<rparr>"
  have next1: "nextId [Item 0 (ascii ''Home'') (ascii ''/h'') None None] = 1"
    by (simp add: number_eval)
  have sub: "submit ?f ?st =
      create_branch None (trim (ascii ''Start'')) (trim (ascii ''/start'')) (trim []) ?st"
    using submit_create [of ?f ?st] accepted_eval by simp
  have a: "submit ?f ?st =
      \<lparr>menuData = [Item 0 (ascii ''Home'') (ascii ''/h'') None None,
                   Item 1 (ascii ''Start'') (ascii ''/start'') (Some []) None],
       messages = [(NuevaOpcion, False)]\<rparr>"
    unfolding sub by (simp add: create_branch_root next1 trim_eval trim_Nil)
  have c: "findById 0 [Item 0 (ascii ''Home'') (ascii ''/h'') None None] =
     Some (Item 0 (ascii ''Home'') (ascii ''/h'') None None)"
    by (simp add: findById_def)
  from a c show ?thesis by simp
qed

theorem submit_edit_zero_creates_witness:
  "menuData (submit
     \<lparr>editingIdInput = Some 0, nombreInput = ascii ''Start'', enlaceInput = ascii ''/start'',
      iconoInput = [], parentIdInput = None\<rparr>
     \<lparr>menuData = [Item 0 (ascii ''Home'') (ascii ''/h'') None None], messages = []\<rparr>) =
   [Item 0 (ascii ''Home'') (ascii ''/h'') None None,
    Item 1 (ascii ''Start'') (ascii ''/start'') (Some []) None]"
proof -
  from submit_edit_zero_creates have "submit
     \<lparr>editingIdInput = Some 0, nombreInput = ascii ''Start'', enlaceInput = ascii ''/start'',
      iconoInput = [], parentIdInput = None\<rparr>
     \<lparr>menuData = [Item 0 (ascii ''Home'') (ascii ''/h'') None None], messages = []\<rparr> =
   \<lparr>menuData = [Item 0 (ascii ''Home'') (ascii ''/h'') None None,
                Item 1 (ascii ''Start'') (ascii ''/start'') (Some []) None],
    messages = [(NuevaOpcion, False)]\<rparr>" by blast
  then show ?thesis by simp
qed

subsection \<open>Rejected submissions\<close>

text \<open>
  Claim C7. A submission whose label is empty (or blank) or whose href \<open>validateUrl\<close>
  rejects leaves the forest exactly as it was and only issues an error message, whatever
  the editing id and the parent id are: on the create path and on the edit path alike.
\<close>

theorem submit_rejected_unchanged:
  "trim (nombreInput f) = [] \<or> \<not> validateUrl (trim (enlaceInput f)) \<Longrightarrow>
   menuData (submit f st) = menuData st \<and>
   messages (submit f st) =
     messages st @
       [(if trim (nombreInput f) = [] then NombreObligatorio else EnlaceInvalido, True)]"
  by (simp add: submit_rejected showMessage_def)

theorem submit_rejected_unchanged_witness:
  "menuData (submit
     \<lparr>editingIdInput = None, nombreInput = [], enlaceInput = ascii ''/about'',
      iconoInput = [], parentIdInput = Some 1\<rparr>
     \<lparr>menuData = [Item 1 (ascii ''Home'') (ascii ''/h'') None None], messages = []\<rparr>) =
     [Item 1 (ascii ''Home'') (ascii ''/h'') None None] \<and>
   menuData (submit
     \<lparr>editingIdInput = Some 1, nombreInput = ascii ''Start'', enlaceInput = ascii ''ftp://x'',
      iconoInput = [], parentIdInput = None\<rparr>
     \<lparr>menuData = [Item 1 (ascii ''Home'') (ascii ''/h'') None None], messages = []\<rparr>) =
     [Item 1 (ascii ''Home'') (ascii ''/h'') None None] \<and>
   messages (submit
     \<lparr>editingIdInput = Some 1, nombreInput = ascii ''Start'', enlaceInput = ascii ''ftp://x'',
      iconoInput = [], parentIdInput = None\<rparr>
     \<lparr>menuData = [Item 1 (ascii ''Home'') (ascii ''/h'') None None], messages = []\<rparr>) =
     [(EnlaceInvalido, True)]"
proof -
  let ?st = "\<lparr>menuData = [Item 1 (ascii ''Home'') (ascii ''/h'') None None], messages = []\<rparr>"
  let ?f = "\<lparr>editingIdInput = None, nombreInput = [], enlaceInput = ascii ''/about'',
      iconoInput = [], parentIdInput = Some 1\<rparr>"
  let ?g = "\<lparr>editingIdInput = Some 1, nombreInput = ascii ''Start'',
      enlaceInput = ascii ''ftp://x'', iconoInput = [], parentIdInput = None\<rparr>"
  have hf: "trim (nombreInput ?f) = [] \<or> \<not> validateUrl (trim (enlaceInput ?f))"
    by (simp add: trim_Nil)
  have ng: "trim (nombreInput ?g) \<noteq> []" using accepted_eval by simp
  have "\<not> validateUrl (ascii ''ftp://x'')" by (simp add: validateUrl_eval)
  then have "\<not> validateUrl (trim (enlaceInput ?g))" by (simp add: trim_eval)
  then have hg: "trim (nombreInput ?g) = [] \<or> \<not> validateUrl (trim (enlaceInput ?g))" ..
  from submit_rejected_unchanged [OF hf, of ?st] submit_rejected_unchanged [OF hg, of ?st] ng
  show ?thesis by simp
qed

subsection \<open>Writing the forest out and reading it back\<close>



end
